theory Spec2Isabelle
  imports Complex_Main "HOL-Library.Word" "HOL-Library.Log_Nat"
begin

section \<open>JavaScript values used by the typing test\<close>

subsection \<open>Strings\<close>

text \<open>
  A JavaScript string is a sequence of UTF-16 code units: \<open>length\<close> counts code units,
  \<open>s[i]\<close> is the one-unit string at index \<open>i\<close> (or \<open>undefined\<close> out of range) and
  \<open>===\<close> compares the sequences.
\<close>

type_synonym jsstring = "16 word list"

text \<open>\<open>str\<close> writes an ASCII literal as a JavaScript string.\<close>

definition str :: "string \<Rightarrow> jsstring" where
  "str s = map of_char s"

text \<open>\<open>s[i] || ''\<close>: the one-unit string at \<open>i\<close>, the empty string out of range.\<close>

definition char_or_empty :: "jsstring \<Rightarrow> nat \<Rightarrow> jsstring" where
  "char_or_empty s i = (if i < length s then [s ! i] else [])"

text \<open>\<open>s[i]\<close>, with \<open>None\<close> for \<open>undefined\<close>.\<close>

definition js_index :: "'a list \<Rightarrow> nat \<Rightarrow> 'a option" where
  "js_index xs i = (if i < length xs then Some (xs ! i) else None)"

text \<open>
  The code units that \<open>String.prototype.trim\<close> removes: the WhiteSpace and
  LineTerminator productions of ECMAScript.
\<close>

definition is_js_whitespace :: "16 word \<Rightarrow> bool" where
  "is_js_whitespace c \<longleftrightarrow>
     c \<in> {0x0009, 0x000A, 0x000B, 0x000C, 0x000D, 0x0020, 0x00A0, 0x1680,
          0x2000, 0x2001, 0x2002, 0x2003, 0x2004, 0x2005, 0x2006, 0x2007,
          0x2008, 0x2009, 0x200A, 0x2028, 0x2029, 0x202F, 0x205F, 0x3000, 0xFEFF}"

definition trim :: "jsstring \<Rightarrow> jsstring" where
  "trim s = rev (dropWhile is_js_whitespace (rev (dropWhile is_js_whitespace s)))"

text \<open>
  \<open>s.substring(a, b)\<close>: both indices are clamped to \<open>0 .. length s\<close> and swapped when
  \<open>a > b\<close>; \<open>s.substring(a)\<close> runs to the end of the string.
\<close>

definition substring :: "jsstring \<Rightarrow> int \<Rightarrow> int \<Rightarrow> jsstring" where
  "substring s a b =
     (let n = int (length s);
          a' = min (max a 0) n;
          b' = min (max b 0) n;
          lo = min a' b';
          hi = max a' b'
      in take (nat (hi - lo)) (drop (nat lo) s))"

definition substring_from :: "jsstring \<Rightarrow> int \<Rightarrow> jsstring" where
  "substring_from s a = substring s a (int (length s))"

text \<open>\<open>s.indexOf(c)\<close> for a one-unit string \<open>c\<close>: the first index of \<open>c\<close>, or \<open>-1\<close>.\<close>

fun indexOf_from :: "jsstring \<Rightarrow> 16 word \<Rightarrow> int \<Rightarrow> int" where
  "indexOf_from [] c i = -1"
| "indexOf_from (x # xs) c i = (if x = c then i else indexOf_from xs c (i + 1))"

definition indexOf :: "jsstring \<Rightarrow> 16 word \<Rightarrow> int" where
  "indexOf s c = indexOf_from s c 0"

definition SPACE :: "16 word" where
  "SPACE = 0x0020"

subsection \<open>Numbers\<close>

text \<open>
  A JavaScript number is an IEEE 754 double. A finite double is represented here by the
  rational it denotes; the two infinities and \<open>NaN\<close> are values of their own. Negative zero
  is identified with zero. An arithmetic operation on finite values computes the exact
  result and rounds it with \<open>to_double\<close>.
\<close>

datatype jsnum = Fin rat | PosInf | NegInf | NaN

text \<open>\<open>pow2 e\<close> is \<open>2\<close> to the power \<open>e\<close>, for an integer \<open>e\<close> of either sign.\<close>

definition pow2 :: "int \<Rightarrow> rat" where
  "pow2 e = (if 0 \<le> e then 2 ^ nat e else 1 / 2 ^ nat (- e))"

text \<open>
  \<open>exponent a\<close> is the binary exponent of a positive rational: the integer \<open>e\<close> with
  \<open>pow2 e \<le> a < pow2 (e + 1)\<close>.
\<close>

definition exponent :: "rat \<Rightarrow> int" where
  "exponent a = (if 1 \<le> a then bitlen \<lfloor>a\<rfloor> - 1 else - bitlen (\<lceil>1 / a\<rceil> - 1))"

text \<open>Rounding to the nearest integer, a tie going to the even one.\<close>

definition round_half_even :: "rat \<Rightarrow> int" where
  "round_half_even x =
     (let f = \<lfloor>x\<rfloor>; r = x - of_int f
      in if r < 1 / 2 then f else if 1 / 2 < r then f + 1 else if even f then f else f + 1)"

text \<open>
  \<open>to_double x\<close> rounds a rational to the nearest double (binary64, round to nearest, ties
  to even). The doubles near \<open>x\<close> are the multiples of the quantum \<open>q\<close>, which is
  \<open>pow2 (e - 52)\<close> for a normal number of exponent \<open>e\<close> and \<open>pow2 (- 1074)\<close> in the
  subnormal range; a result of magnitude \<open>pow2 1024\<close> or more is an infinity.
\<close>

definition to_double :: "rat \<Rightarrow> jsnum" where
  "to_double x =
     (if x = 0 then Fin 0
      else
        (let a = \<bar>x\<bar>;
             e = exponent a;
             q = pow2 (max e (- 1022) - 52);
             y = of_int (round_half_even (a / q)) * q
         in if pow2 1024 \<le> y then (if 0 < x then PosInf else NegInf)
            else Fin (if 0 < x then y else - y)))"

fun js_div :: "jsnum \<Rightarrow> jsnum \<Rightarrow> jsnum" where
  "js_div (Fin a) (Fin b) =
     (if b = 0 then (if a = 0 then NaN else if 0 < a then PosInf else NegInf)
      else to_double (a / b))"
| "js_div (Fin a) PosInf = Fin 0"
| "js_div (Fin a) NegInf = Fin 0"
| "js_div PosInf (Fin b) = (if 0 \<le> b then PosInf else NegInf)"
| "js_div NegInf (Fin b) = (if 0 \<le> b then NegInf else PosInf)"
| "js_div PosInf PosInf = NaN"
| "js_div PosInf NegInf = NaN"
| "js_div NegInf PosInf = NaN"
| "js_div NegInf NegInf = NaN"
| "js_div NaN y = NaN"
| "js_div x NaN = NaN"

fun js_mul :: "jsnum \<Rightarrow> jsnum \<Rightarrow> jsnum" where
  "js_mul (Fin a) (Fin b) = to_double (a * b)"
| "js_mul (Fin a) PosInf = (if a = 0 then NaN else if 0 < a then PosInf else NegInf)"
| "js_mul (Fin a) NegInf = (if a = 0 then NaN else if 0 < a then NegInf else PosInf)"
| "js_mul PosInf (Fin b) = (if b = 0 then NaN else if 0 < b then PosInf else NegInf)"
| "js_mul NegInf (Fin b) = (if b = 0 then NaN else if 0 < b then NegInf else PosInf)"
| "js_mul PosInf PosInf = PosInf"
| "js_mul PosInf NegInf = NegInf"
| "js_mul NegInf PosInf = NegInf"
| "js_mul NegInf NegInf = PosInf"
| "js_mul NaN y = NaN"
| "js_mul x NaN = NaN"

fun js_sub :: "jsnum \<Rightarrow> jsnum \<Rightarrow> jsnum" where
  "js_sub (Fin a) (Fin b) = to_double (a - b)"
| "js_sub (Fin a) PosInf = NegInf"
| "js_sub (Fin a) NegInf = PosInf"
| "js_sub PosInf (Fin b) = PosInf"
| "js_sub NegInf (Fin b) = NegInf"
| "js_sub PosInf PosInf = NaN"
| "js_sub PosInf NegInf = PosInf"
| "js_sub NegInf PosInf = NegInf"
| "js_sub NegInf NegInf = NaN"
| "js_sub NaN y = NaN"
| "js_sub x NaN = NaN"

text \<open>
  \<open>Math.round\<close> rounds to the nearest integer, a tie going towards \<open>+\<infinity>\<close>; that is
  \<open>\<lfloor>x + 1/2\<rfloor>\<close>, which is \<^const>\<open>round\<close>. The result is exact: the nearest integer of a
  double is a double.
\<close>

fun js_round :: "jsnum \<Rightarrow> jsnum" where
  "js_round (Fin x) = Fin (of_int (round x))"
| "js_round PosInf = PosInf"
| "js_round NegInf = NegInf"
| "js_round NaN = NaN"

text \<open>\<open>a >= b\<close>: false as soon as one side is \<open>NaN\<close>.\<close>

fun js_ge :: "jsnum \<Rightarrow> jsnum \<Rightarrow> bool" where
  "js_ge (Fin a) (Fin b) \<longleftrightarrow> b \<le> a"
| "js_ge (Fin a) PosInf \<longleftrightarrow> False"
| "js_ge (Fin a) NegInf \<longleftrightarrow> True"
| "js_ge PosInf (Fin b) \<longleftrightarrow> True"
| "js_ge NegInf (Fin b) \<longleftrightarrow> False"
| "js_ge PosInf PosInf \<longleftrightarrow> True"
| "js_ge PosInf NegInf \<longleftrightarrow> True"
| "js_ge NegInf PosInf \<longleftrightarrow> False"
| "js_ge NegInf NegInf \<longleftrightarrow> True"
| "js_ge NaN y \<longleftrightarrow> False"
| "js_ge x NaN \<longleftrightarrow> False"

text \<open>\<open>Math.max(a, b)\<close> and \<open>Math.min(a, b)\<close>: \<open>NaN\<close> as soon as one argument is.\<close>

definition js_max :: "jsnum \<Rightarrow> jsnum \<Rightarrow> jsnum" where
  "js_max a b = (if a = NaN \<or> b = NaN then NaN else if js_ge a b then a else b)"

definition js_min :: "jsnum \<Rightarrow> jsnum \<Rightarrow> jsnum" where
  "js_min a b = (if a = NaN \<or> b = NaN then NaN else if js_ge a b then b else a)"

text \<open>\<open>a || b\<close> on numbers: \<open>a\<close> unless it is falsy (zero or \<open>NaN\<close>).\<close>

definition js_or :: "jsnum \<Rightarrow> jsnum \<Rightarrow> jsnum" where
  "js_or a b = (if a = Fin 0 \<or> a = NaN then b else a)"

definition is_finite :: "jsnum \<Rightarrow> bool" where
  "is_finite x = (case x of Fin _ \<Rightarrow> True | _ \<Rightarrow> False)"

text \<open>A count is the length of a string or of an array: an integer, exact as a double.\<close>

definition of_count :: "nat \<Rightarrow> jsnum" where
  "of_count n = Fin (of_nat n)"

section \<open>utils/typingLogic.js\<close>

subsection \<open>Metrics\<close>

definition calculateWPM :: "jsnum \<Rightarrow> jsnum \<Rightarrow> jsnum" where
  "calculateWPM charactersTyped timeElapsed =
     (if timeElapsed = Fin 0 then Fin 0
      else let minutes = js_div timeElapsed (Fin 60);
               words = js_div charactersTyped (Fin 5)
           in js_round (js_div words minutes))"

definition calculateAccuracy :: "jsnum \<Rightarrow> jsnum \<Rightarrow> jsnum" where
  "calculateAccuracy correctChars totalChars =
     (if totalChars = Fin 0 then Fin 100
      else js_div (js_round (js_mul (js_div correctChars totalChars) (Fin 1000))) (Fin 10))"

definition calculateNetWPM :: "jsnum \<Rightarrow> jsnum \<Rightarrow> jsnum \<Rightarrow> jsnum" where
  "calculateNetWPM grossWPM mistakeCount timeElapsed =
     (let minutes = js_div timeElapsed (Fin 60);
          errorPenalty = js_div mistakeCount minutes
      in js_max (Fin 0) (js_round (js_sub grossWPM errorPenalty)))"

subsection \<open>Character analysis\<close>

datatype char_state = correct | incorrect | missed | extra | current | pending

datatype mistake_type = substitution | insertion

record mistake =
  position :: nat
  expected :: jsstring
  typed :: jsstring
  type :: mistake_type

record analysis =
  correctCharacters :: nat
  incorrectCharacters :: nat
  totalCharacters :: nat
  mistakes :: "mistake list"
  characterStates :: "char_state list"

text \<open>The body of the \<open>for\<close> loop of \<open>analyzeTypedText\<close> at index \<open>i\<close>.\<close>

definition analyze_step :: "jsstring \<Rightarrow> jsstring \<Rightarrow> nat \<Rightarrow> analysis \<Rightarrow> analysis" where
  "analyze_step originalText typedText i a =
     (let originalChar = char_or_empty originalText i;
          typedChar = char_or_empty typedText i
      in if i < length typedText \<and> i < length originalText then
           (if originalChar = typedChar then
              a\<lparr>correctCharacters := correctCharacters a + 1,
                characterStates := characterStates a @ [correct]\<rparr>
            else
              a\<lparr>incorrectCharacters := incorrectCharacters a + 1,
                characterStates := characterStates a @ [incorrect],
                mistakes := mistakes a @
                  [\<lparr>position = i, expected = originalChar, typed = typedChar,
                    type = substitution\<rparr>]\<rparr>)
         else if length typedText \<le> i then
           a\<lparr>characterStates := characterStates a @ [missed]\<rparr>
         else
           a\<lparr>incorrectCharacters := incorrectCharacters a + 1,
             characterStates := characterStates a @ [extra],
             mistakes := mistakes a @
               [\<lparr>position = i, expected = [], typed = typedChar, type = insertion\<rparr>]\<rparr>)"

function analyze_loop :: "jsstring \<Rightarrow> jsstring \<Rightarrow> nat \<Rightarrow> analysis \<Rightarrow> analysis" where
  "analyze_loop originalText typedText i a =
     (if i < max (length originalText) (length typedText)
      then analyze_loop originalText typedText (Suc i) (analyze_step originalText typedText i a)
      else a)"
  by pat_completeness auto
termination
  by (relation "measure (\<lambda>(originalText, typedText, i, a).
        max (length originalText) (length typedText) - i)") auto

declare analyze_loop.simps [simp del]

definition analyzeTypedText :: "jsstring \<Rightarrow> jsstring \<Rightarrow> analysis" where
  "analyzeTypedText originalText typedText =
     analyze_loop originalText typedText 0
       \<lparr>correctCharacters = 0, incorrectCharacters = 0,
        totalCharacters = length typedText, mistakes = [], characterStates = []\<rparr>"

text \<open>\<open>getCharacterStates\<close>: the states shown while typing, one per character of the text.\<close>

definition live_state :: "jsstring \<Rightarrow> jsstring \<Rightarrow> nat \<Rightarrow> nat \<Rightarrow> char_state" where
  "live_state originalText typedText currentPosition i =
     (if i < length typedText then
        (if originalText ! i = typedText ! i then correct else incorrect)
      else if i = currentPosition then current
      else pending)"

definition getCharacterStates :: "jsstring \<Rightarrow> jsstring \<Rightarrow> nat \<Rightarrow> char_state list" where
  "getCharacterStates originalText typedText currentPosition =
     map (live_state originalText typedText currentPosition) [0..<length originalText]"

subsection \<open>Live statistics and end conditions\<close>

record stats =
  s_wpm :: jsnum
  s_accuracy :: jsnum
  s_correctCharacters :: nat
  s_incorrectCharacters :: nat
  s_totalCharacters :: nat
  s_mistakes :: nat
  s_progress :: jsnum

definition calculateRealTimeStats :: "jsstring \<Rightarrow> jsstring \<Rightarrow> jsnum \<Rightarrow> stats" where
  "calculateRealTimeStats originalText typedText timeElapsed =
     (let a = analyzeTypedText originalText typedText;
          wpm = calculateWPM (of_count (correctCharacters a)) timeElapsed;
          accuracy = calculateAccuracy (of_count (correctCharacters a))
                       (of_count (totalCharacters a))
      in \<lparr>s_wpm = wpm, s_accuracy = accuracy,
          s_correctCharacters = correctCharacters a,
          s_incorrectCharacters = incorrectCharacters a,
          s_totalCharacters = totalCharacters a,
          s_mistakes = length (mistakes a),
          s_progress = js_min (Fin 100)
            (js_mul (js_div (of_count (length typedText)) (of_count (length originalText)))
               (Fin 100))\<rparr>)"

datatype end_reason = time | completed

record end_check =
  shouldEnd :: bool
  reason :: "end_reason option"
  timeUp :: bool
  textCompleted :: bool

definition checkEndConditions :: "jsstring \<Rightarrow> jsstring \<Rightarrow> jsnum \<Rightarrow> jsnum \<Rightarrow> end_check" where
  "checkEndConditions originalText typedText timeLimit timeElapsed =
     (let timeUp = js_ge timeElapsed timeLimit;
          textCompleted = (length originalText \<le> length typedText \<and>
             trim typedText = trim (substring originalText 0 (int (length typedText))))
      in \<lparr>shouldEnd = (timeUp \<or> textCompleted),
          reason = (if timeUp then Some time else if textCompleted then Some completed else None),
          timeUp = timeUp,
          textCompleted = textCompleted\<rparr>)"

text \<open>
  The classification of one position in the words of the specification, and the mistake
  records the specification attaches to it; \<open>analyzeTypedText\<close> is compared with them below.
\<close>

definition spec_state :: "jsstring \<Rightarrow> jsstring \<Rightarrow> nat \<Rightarrow> char_state" where
  "spec_state target inp i =
     (if i < length target \<and> i < length inp then
        (if target ! i = inp ! i then correct else incorrect)
      else if length inp \<le> i then missed
      else extra)"

definition spec_mistakes :: "jsstring \<Rightarrow> jsstring \<Rightarrow> nat \<Rightarrow> mistake list" where
  "spec_mistakes target inp i =
     (if i < length target \<and> i < length inp then
        (if target ! i = inp ! i then []
         else [\<lparr>position = i, expected = [target ! i], typed = [inp ! i], type = substitution\<rparr>])
      else if length inp \<le> i then []
      else [\<lparr>position = i, expected = [], typed = [inp ! i], type = insertion\<rparr>])"



section \<open>utils/textGenerator.js\<close>

text \<open>
  The word list and the sentence list come from \<open>wordList.js\<close>; they are parameters here
  (\<open>commonWords\<close> and \<open>sentences\<close>). The \<open>k\<close>-th call of \<open>Math.random()\<close> returns the
  fractional part of \<open>rnd k\<close>: every stream \<open>rnd\<close> gives draws in \<open>[0, 1)\<close>, and every
  sequence of draws in \<open>[0, 1)\<close> is given by a stream. Each function takes the number of
  draws made so far and returns it updated.
\<close>

datatype text_mode = Words | Sentences | Mixed | OtherMode

datatype js_error = TypeError

definition random :: "(nat \<Rightarrow> rat) \<Rightarrow> nat \<Rightarrow> rat" where
  "random rnd k = frac (rnd k)"

text \<open>\<open>Math.floor(Math.random() * n)\<close>\<close>

definition random_index :: "(nat \<Rightarrow> rat) \<Rightarrow> nat \<Rightarrow> nat \<Rightarrow> nat" where
  "random_index rnd k n = nat \<lfloor>random rnd k * of_nat n\<rfloor>"

text \<open>
  \<open>words.join(' ')\<close>: an \<open>undefined\<close> element is joined as the empty string. A string
  concatenation turns \<open>undefined\<close> into the text \<open>undefined\<close>.
\<close>

definition join_element :: "jsstring option \<Rightarrow> jsstring" where
  "join_element x = (case x of None \<Rightarrow> [] | Some w \<Rightarrow> w)"

fun js_join :: "jsstring option list \<Rightarrow> jsstring" where
  "js_join [] = []"
| "js_join [x] = join_element x"
| "js_join (x # y # ys) = join_element x @ [SPACE] @ js_join (y # ys)"

definition to_string :: "jsstring option \<Rightarrow> jsstring" where
  "to_string x = (case x of None \<Rightarrow> str ''undefined'' | Some w \<Rightarrow> w)"

text \<open>The \<open>for\<close> loop of \<open>generateRandomWords\<close>, with \<open>n\<close> iterations left.\<close>

fun push_words ::
  "jsstring list \<Rightarrow> (nat \<Rightarrow> rat) \<Rightarrow> nat \<Rightarrow> jsstring option list \<Rightarrow> nat
     \<Rightarrow> jsstring option list \<times> nat" where
  "push_words commonWords rnd 0 words k = (words, k)"
| "push_words commonWords rnd (Suc n) words k =
     (let randomIndex = random_index rnd k (length commonWords)
      in push_words commonWords rnd n (words @ [js_index commonWords randomIndex]) (Suc k))"

definition generateRandomWords ::
  "jsstring list \<Rightarrow> (nat \<Rightarrow> rat) \<Rightarrow> nat \<Rightarrow> nat \<Rightarrow> jsstring \<times> nat" where
  "generateRandomWords commonWords rnd wordCount k =
     (let (words, k') = push_words commonWords rnd wordCount [] k
      in (js_join words, k'))"

text \<open>
  The words that \<open>generateRandomWords\<close> draws when it starts at the first draw: the
  \<open>i\<close>-th is the entry of the word list at the index given by the \<open>i\<close>-th draw.
\<close>

definition drawn_words :: "jsstring list \<Rightarrow> (nat \<Rightarrow> rat) \<Rightarrow> nat \<Rightarrow> jsstring option list" where
  "drawn_words commonWords rnd n =
     map (\<lambda>i. js_index commonWords (random_index rnd i (length commonWords))) [0..<n]"

text \<open>\<open>text += (text ? ' ' : '') + addition\<close>\<close>

definition append_spaced :: "jsstring \<Rightarrow> jsstring \<Rightarrow> jsstring" where
  "append_spaced text addition = text @ (if text \<noteq> [] then [SPACE] else []) @ addition"

text \<open>
  \<open>usedSentences\<close> is a \<open>Set\<close> of indices, kept as the list of its elements in insertion
  order: \<open>add\<close> leaves a set that has the element as it is, \<open>size\<close> is the length.
\<close>

definition set_add :: "nat \<Rightarrow> nat list \<Rightarrow> nat list" where
  "set_add x used = (if x \<in> set used then used else used @ [x])"

text \<open>
  The \<open>do ... while (usedSentences.has(randomIndex))\<close> loop: it draws until the index is
  unused, and does not return when the draws never leave the used indices.
\<close>

partial_function (option) draw_unused ::
  "(nat \<Rightarrow> rat) \<Rightarrow> nat \<Rightarrow> nat list \<Rightarrow> nat \<Rightarrow> (nat \<times> nat) option" where
  "draw_unused rnd n used k =
     (let randomIndex = random_index rnd k n
      in if randomIndex \<in> set used then draw_unused rnd n used (Suc k)
         else Some (randomIndex, Suc k))"

declare draw_unused.simps [code]

partial_function (option) sentences_loop ::
  "jsstring list \<Rightarrow> (nat \<Rightarrow> rat) \<Rightarrow> nat \<Rightarrow> jsstring \<Rightarrow> nat list \<Rightarrow> nat
     \<Rightarrow> (js_error + jsstring \<times> nat) option" where
  "sentences_loop sentences rnd targetLength text usedSentences k =
     (if length text < targetLength \<and> length usedSentences < length sentences then
        Option.bind (draw_unused rnd (length sentences) usedSentences k)
          (\<lambda>(randomIndex, k').
             case js_index sentences randomIndex of
               None \<Rightarrow> Some (Inl TypeError)
             | Some sentence \<Rightarrow>
                 if length text + length sentence + 1 \<le> targetLength + 50 then
                   sentences_loop sentences rnd targetLength (append_spaced text sentence)
                     (set_add randomIndex usedSentences) k'
                 else Some (Inr (text, k')))
      else Some (Inr (text, k)))"

declare sentences_loop.simps [code]

text \<open>\<open>return text || sentences[0]\<close>: \<open>None\<close> is \<open>undefined\<close>.\<close>

definition generateRandomSentences ::
  "jsstring list \<Rightarrow> (nat \<Rightarrow> rat) \<Rightarrow> nat \<Rightarrow> nat
     \<Rightarrow> (js_error + jsstring option \<times> nat) option" where
  "generateRandomSentences sentences rnd targetLength k =
     (case sentences_loop sentences rnd targetLength [] [] k of
        None \<Rightarrow> None
      | Some (Inl e) \<Rightarrow> Some (Inl e)
      | Some (Inr (text, k')) \<Rightarrow>
          Some (Inr (if text \<noteq> [] then Some text else js_index sentences 0, k')))"

partial_function (option) mixed_loop ::
  "jsstring list \<Rightarrow> jsstring list \<Rightarrow> (nat \<Rightarrow> rat) \<Rightarrow> nat \<Rightarrow> jsstring \<Rightarrow> bool \<Rightarrow> nat
     \<Rightarrow> (jsstring \<times> nat) option" where
  "mixed_loop commonWords sentences rnd targetLength text useWords k =
     (if length text < targetLength then
        (let (text', k') =
               (if useWords then
                  (let wordCount = nat (\<lfloor>random rnd k * 10\<rfloor> + 5);
                       (words, k1) = generateRandomWords commonWords rnd wordCount (Suc k)
                   in (append_spaced text words, k1))
                else
                  (let randomSentence =
                         js_index sentences (random_index rnd k (length sentences))
                   in (append_spaced text (to_string randomSentence), Suc k)))
         in if targetLength + 100 < length text' then Some (text', k')
            else mixed_loop commonWords sentences rnd targetLength text' (\<not> useWords) k')
      else Some (text, k))"

declare mixed_loop.simps [code]

definition generateMixedText ::
  "jsstring list \<Rightarrow> jsstring list \<Rightarrow> (nat \<Rightarrow> rat) \<Rightarrow> nat \<Rightarrow> nat \<Rightarrow> (jsstring \<times> nat) option" where
  "generateMixedText commonWords sentences rnd targetLength k =
     (let useWords = (1 / 2 < random rnd k)
      in case mixed_loop commonWords sentences rnd targetLength [] useWords (Suc k) of
           None \<Rightarrow> None
         | Some (text, k') \<Rightarrow>
             Some (substring text 0
                     (int targetLength + indexOf (substring_from text (int targetLength)) SPACE),
                   k'))"

text \<open>\<open>generateText\<close>: the result is the text, \<open>None\<close> for \<open>undefined\<close>.\<close>

definition generateText ::
  "jsstring list \<Rightarrow> jsstring list \<Rightarrow> (nat \<Rightarrow> rat) \<Rightarrow> text_mode \<Rightarrow> nat
     \<Rightarrow> (js_error + jsstring option) option" where
  "generateText commonWords sentences rnd mode len =
     (case mode of
        Words \<Rightarrow> Some (Inr (Some (fst (generateRandomWords commonWords rnd len 0))))
      | Sentences \<Rightarrow>
          map_option (map_sum id fst) (generateRandomSentences sentences rnd len 0)
      | Mixed \<Rightarrow>
          map_option (\<lambda>r. Inr (Some (fst r))) (generateMixedText commonWords sentences rnd len 0)
      | OtherMode \<Rightarrow> Some (Inr (Some (fst (generateRandomWords commonWords rnd len 0)))))"

section \<open>components/TypingTest.jsx\<close>

text \<open>
  The state of the component and of its collaborators: the React state variables, the
  running interval, the results kept in local storage, the sounds played and the results
  handed to \<open>onTestComplete\<close>. A state setter is modelled as an assignment. The state
  variable \<open>characterStates\<close> is the field \<open>highlightStates\<close>.
\<close>

datatype sound_name = keyPress | keyError | testComplete | countdown

record result =
  r_wpm :: jsnum
  r_netWPM :: jsnum
  r_accuracy :: jsnum
  r_mistakes :: nat
  r_totalCharacters :: nat
  r_correctCharacters :: nat
  r_incorrectCharacters :: nat
  r_timeElapsed :: jsnum
  r_timeLimit :: jsnum
  r_textMode :: text_mode
  r_testText :: jsstring
  r_timestamp :: jsstring
  r_characterStates :: "char_state list"
  r_mistakeDetails :: "mistake list"

record saved_result = result +
  r_id :: jsnum

record session =
  timeLimit :: jsnum
  textMode :: text_mode
  testText :: jsstring
  typedText :: jsstring
  isActive :: bool
  isPaused :: bool
  timeElapsed :: jsnum
  isComplete :: bool
  isSoundEnabled :: bool
  currentStats :: stats
  highlightStates :: "char_state list"
  intervalRunning :: bool
  storedResults :: "saved_result list"
  soundsPlayed :: "(sound_name \<times> rat) list"
  completions :: "saved_result option list"

text \<open>
  What a call of the completion handler reads from outside the component: the clock
  (\<open>Date.now()\<close> and the two \<open>toISOString()\<close> readings), whether local storage accepts the
  write, and whether the parent passed \<open>onTestComplete\<close>.
\<close>

record env =
  dateNow :: jsnum
  isoAtHandler :: jsstring
  isoAtSave :: jsstring
  storageOk :: bool
  onTestCompleteGiven :: bool

definition playSound :: "sound_name \<Rightarrow> rat \<Rightarrow> session \<Rightarrow> session" where
  "playSound soundName volume s = s\<lparr>soundsPlayed := soundsPlayed s @ [(soundName, volume)]\<rparr>"

text \<open>
  \<open>saveTestResult\<close> (utils/localStorage.js): the result gets an id and a fresh timestamp and
  is appended, the list is cut to its last 100 entries; a failing storage returns \<open>null\<close>
  and stores nothing.
\<close>

definition saveTestResult ::
  "env \<Rightarrow> result \<Rightarrow> saved_result list \<Rightarrow> saved_result option \<times> saved_result list" where
  "saveTestResult e res existingResults =
     (if storageOk e then
        (let newResult = result.extend (res\<lparr>r_timestamp := isoAtSave e\<rparr>)
                           (saved_result.fields (dateNow e));
             updatedResults = existingResults @ [newResult];
             updatedResults' =
               (if 100 < length updatedResults
                then drop (length updatedResults - 100) updatedResults
                else updatedResults)
         in (Some newResult, updatedResults'))
      else (None, existingResults))"

text \<open>
  \<open>handleTestComplete\<close> is created by \<open>useCallback\<close> at a render and closes over the state
  variables of that render. In \<open>handleTestComplete e c s\<close> the state \<open>c\<close> is the one of the
  render that created the handler and \<open>s\<close> the state at the call: the handler reads
  \<open>isComplete\<close>, \<open>timeElapsed\<close>, \<open>timeLimit\<close>, \<open>testText\<close>, \<open>typedText\<close>, \<open>textMode\<close> and
  \<open>isSoundEnabled\<close> from \<open>c\<close>, and its effects (the sound, the stored result, the state
  setters, \<open>clearInterval\<close>, the notification of the parent) change \<open>s\<close>. A handler called
  from the render that is current has \<open>c = s\<close>.
\<close>

definition handleTestComplete :: "env \<Rightarrow> session \<Rightarrow> session \<Rightarrow> session" where
  "handleTestComplete e c s =
     (if isComplete c then s
      else
        (let finalTimeElapsed = js_or (timeElapsed c) (timeLimit c);
             finalStats = calculateRealTimeStats (testText c) (typedText c) finalTimeElapsed;
             s1 = (if isSoundEnabled c then playSound testComplete (4 / 10) s else s);
             netWPM = calculateNetWPM (s_wpm finalStats) (of_count (s_mistakes finalStats))
                        finalTimeElapsed;
             an = analyzeTypedText (testText c) (typedText c);
             res = \<lparr>r_wpm = s_wpm finalStats,
                    r_netWPM = netWPM,
                    r_accuracy = s_accuracy finalStats,
                    r_mistakes = length (mistakes an),
                    r_totalCharacters = s_totalCharacters finalStats,
                    r_correctCharacters = s_correctCharacters finalStats,
                    r_incorrectCharacters = s_incorrectCharacters finalStats,
                    r_timeElapsed = finalTimeElapsed,
                    r_timeLimit = timeLimit c,
                    r_textMode = textMode c,
                    r_testText = substring (testText c) 0 100 @
                      (if 100 < length (testText c) then str ''...'' else []),
                    r_timestamp = isoAtHandler e,
                    r_characterStates =
                      getCharacterStates (testText c) (typedText c) (length (typedText c)),
                    r_mistakeDetails = mistakes an\<rparr>;
             (savedResult, stored) = saveTestResult e res (storedResults s1);
             s2 = s1\<lparr>storedResults := stored,
                     currentStats := finalStats,
                     isActive := False,
                     isComplete := True,
                     intervalRunning := False\<rparr>
         in if onTestCompleteGiven e
            then s2\<lparr>completions := completions s2 @ [savedResult]\<rparr>
            else s2))"

definition handleInputChange :: "jsstring \<Rightarrow> session \<Rightarrow> session" where
  "handleInputChange newValue s =
     (if \<not> isActive s \<or> isPaused s \<or> isComplete s then s
      else
        (let s1 =
               (if length (typedText s) < length newValue then
                  (let newChar = js_index newValue (length newValue - 1);
                       expectedChar = js_index (testText s) (length newValue - 1)
                   in if newChar = expectedChar then
                        (if isSoundEnabled s then playSound keyPress (2 / 10) s else s)
                      else
                        (if isSoundEnabled s then playSound keyError (3 / 10) s else s))
                else s)
         in if length newValue \<le> length (testText s) then s1\<lparr>typedText := newValue\<rparr> else s1))"

section \<open>Fair draws and sample inputs\<close>

text \<open>
  The draws are fair for \<open>n\<close> indices when every index below \<open>n\<close> keeps turning up; then
  the re-draw loop of \<open>generateRandomSentences\<close> ends.
\<close>

definition fair_draws :: "(nat \<Rightarrow> rat) \<Rightarrow> nat \<Rightarrow> bool" where
  "fair_draws rnd n \<longleftrightarrow> (\<forall>k. \<forall>i<n. \<exists>j\<ge>k. random_index rnd j n = i)"

definition alternating_draws :: "nat \<Rightarrow> rat" where
  "alternating_draws k = (if even k then 0 else 1 / 2)"

definition zero_draws :: "nat \<Rightarrow> rat" where
  "zero_draws k = 0"

definition sample_words :: "jsstring list" where
  "sample_words = [str ''go'']"

definition two_words :: "jsstring list" where
  "two_words = [str ''go'', str ''up'']"

definition sample_sentences :: "jsstring list" where
  "sample_sentences = [str ''the cat sat'', str ''a dog'']"

definition running_session :: session where
  "running_session =
     \<lparr>timeLimit = Fin 15, textMode = Words, testText = str ''abc'', typedText = str ''abd'',
      isActive = True, isPaused = False, timeElapsed = Fin 15, isComplete = False,
      isSoundEnabled = True,
      currentStats = \<lparr>s_wpm = Fin 0, s_accuracy = Fin 100, s_correctCharacters = 0,
        s_incorrectCharacters = 0, s_totalCharacters = 0, s_mistakes = 0, s_progress = Fin 0\<rparr>,
      highlightStates = [], intervalRunning = True, storedResults = [], soundsPlayed = [],
      completions = []\<rparr>"

text \<open>
  The state of an earlier render of the same session, before anything was typed: the state
  a handler closes over when its interval was created at the start of the test.
\<close>

definition stale_render :: session where
  "stale_render = running_session\<lparr>typedText := [], timeElapsed := Fin 0\<rparr>"

definition sample_env :: env where
  "sample_env = \<lparr>dateNow = Fin 1000, isoAtHandler = str ''t1'', isoAtSave = str ''t2'',
     storageOk = True, onTestCompleteGiven = True\<rparr>"

section \<open>Properties of the character analysis\<close>

lemma analyze_step_states:
  "characterStates (analyze_step target inp i a) = characterStates a @ [spec_state target inp i]"
  by (simp add: analyze_step_def spec_state_def char_or_empty_def Let_def)

lemma analyze_step_mistakes:
  "mistakes (analyze_step target inp i a) = mistakes a @ spec_mistakes target inp i"
  by (simp add: analyze_step_def spec_mistakes_def char_or_empty_def Let_def)

lemma analyze_step_total:
  "totalCharacters (analyze_step target inp i a) = totalCharacters a"
  by (simp add: analyze_step_def Let_def)

lemma analyze_loop_states:
  "characterStates (analyze_loop target inp i a) =
     characterStates a @ map (spec_state target inp) [i..<max (length target) (length inp)]"
proof (induction target inp i a rule: analyze_loop.induct)
  case (1 target inp i a)
  show ?case
  proof (cases "i < max (length target) (length inp)")
    case True
    then show ?thesis
      using "1.IH" [OF True]
      by (subst analyze_loop.simps) (simp add: analyze_step_states upt_conv_Cons)
  next
    case False
    then show ?thesis by (subst analyze_loop.simps) (auto simp: not_less)
  qed
qed

lemma analyze_loop_mistakes:
  "mistakes (analyze_loop target inp i a) =
     mistakes a @ concat (map (spec_mistakes target inp) [i..<max (length target) (length inp)])"
proof (induction target inp i a rule: analyze_loop.induct)
  case (1 target inp i a)
  show ?case
  proof (cases "i < max (length target) (length inp)")
    case True
    then show ?thesis
      using "1.IH" [OF True]
      by (subst analyze_loop.simps) (simp add: analyze_step_mistakes upt_conv_Cons)
  next
    case False
    then show ?thesis by (subst analyze_loop.simps) (auto simp: not_less)
  qed
qed

lemma analyze_loop_total:
  "totalCharacters (analyze_loop target inp i a) = totalCharacters a"
proof (induction target inp i a rule: analyze_loop.induct)
  case (1 target inp i a)
  show ?case
  proof (cases "i < max (length target) (length inp)")
    case True
    then show ?thesis
      using "1.IH" [OF True]
      by (subst analyze_loop.simps) (simp add: analyze_step_total)
  next
    case False
    then show ?thesis by (subst analyze_loop.simps) (auto simp: not_less)
  qed
qed

lemma spec_mistakes_position: "m \<in> set (spec_mistakes target inp j) \<Longrightarrow> position m = j"
  by (auto simp: spec_mistakes_def split: if_splits)

lemma filter_concat_position:
  "i < n \<Longrightarrow> filter (\<lambda>m. position m = i) (concat (map (spec_mistakes target inp) [0..<n]))
     = spec_mistakes target inp i"
proof (induction n)
  case 0
  then show ?case by simp
next
  case (Suc n)
  have none: "j \<noteq> i \<Longrightarrow> filter (\<lambda>m. position m = i) (spec_mistakes target inp j) = []" for j
    by (auto simp: filter_empty_conv dest: spec_mistakes_position)
  have all: "filter (\<lambda>m. position m = i) (spec_mistakes target inp i) = spec_mistakes target inp i"
    by (auto simp: filter_id_conv dest: spec_mistakes_position)
  have below: "n \<le> i \<Longrightarrow> filter (\<lambda>m. position m = i) (concat (map (spec_mistakes target inp) [0..<n])) = []"
    by (auto simp: filter_empty_conv dest: spec_mistakes_position)
  show ?case
  proof (cases "i < n")
    case True
    then show ?thesis using Suc.IH none [of n] by simp
  next
    case False
    with Suc.prems have "i = n" by simp
    then show ?thesis using below all by simp
  qed
qed

lemma analyze_states: "characterStates (analyzeTypedText target inp) =
   map (spec_state target inp) [0..<max (length target) (length inp)]"
  by (simp add: analyzeTypedText_def analyze_loop_states)

lemma analyze_mistakes: "mistakes (analyzeTypedText target inp) =
   concat (map (spec_mistakes target inp) [0..<max (length target) (length inp)])"
  by (simp add: analyzeTypedText_def analyze_loop_mistakes)

text \<open>
  Claim C1. For every target and typed string, \<open>analyzeTypedText\<close> returns one state per
  position below the larger of the two lengths. A position inside both strings is
  \<open>correct\<close> with no mistake when the characters agree, and \<open>incorrect\<close> with exactly the
  substitution mistake of that position when they differ; a position at or past the end of
  the typed string is \<open>missed\<close> with no mistake; a position at or past the end of the target
  is \<open>extra\<close> with exactly the insertion mistake of that position, whose expected text is
  empty.
\<close>

theorem analyze_classifies:
  "length (characterStates (analyzeTypedText target inp)) = max (length target) (length inp) \<and>
   (\<forall>i < max (length target) (length inp).
      (i < length target \<and> i < length inp \<and> target ! i = inp ! i \<longrightarrow>
         characterStates (analyzeTypedText target inp) ! i = correct \<and>
         filter (\<lambda>m. position m = i) (mistakes (analyzeTypedText target inp)) = []) \<and>
      (i < length target \<and> i < length inp \<and> target ! i \<noteq> inp ! i \<longrightarrow>
         characterStates (analyzeTypedText target inp) ! i = incorrect \<and>
         filter (\<lambda>m. position m = i) (mistakes (analyzeTypedText target inp)) =
           [\<lparr>position = i, expected = [target ! i], typed = [inp ! i], type = substitution\<rparr>]) \<and>
      (length inp \<le> i \<longrightarrow>
         characterStates (analyzeTypedText target inp) ! i = missed \<and>
         filter (\<lambda>m. position m = i) (mistakes (analyzeTypedText target inp)) = []) \<and>
      (length target \<le> i \<longrightarrow>
         characterStates (analyzeTypedText target inp) ! i = extra \<and>
         filter (\<lambda>m. position m = i) (mistakes (analyzeTypedText target inp)) =
           [\<lparr>position = i, expected = [], typed = [inp ! i], type = insertion\<rparr>]))"
proof -
  let ?n = "max (length target) (length inp)"
  have len: "length (characterStates (analyzeTypedText target inp)) = ?n"
    by (simp add: analyze_states)
  have st: "characterStates (analyzeTypedText target inp) ! i = spec_state target inp i"
    if "i < ?n" for i
    using that by (simp add: analyze_states del: upt_Suc)
  have ms: "filter (\<lambda>m. position m = i) (mistakes (analyzeTypedText target inp)) =
      spec_mistakes target inp i" if "i < ?n" for i
    using that by (simp add: analyze_mistakes filter_concat_position)
  show ?thesis
  proof (intro conjI allI impI)
    show "length (characterStates (analyzeTypedText target inp)) = ?n" by (rule len)
  qed (auto simp: st ms spec_state_def spec_mistakes_def)
qed


theorem analyze_classifies_witness:
  "characterStates (analyzeTypedText (str ''abc'') (str ''abd'')) ! 2 = incorrect \<and>
   filter (\<lambda>m. position m = 2) (mistakes (analyzeTypedText (str ''abc'') (str ''abd''))) =
     [\<lparr>position = 2, expected = str ''c'', typed = str ''d'', type = substitution\<rparr>] \<and>
   characterStates (analyzeTypedText (str ''abc'') (str ''abd'')) ! 0 = correct \<and>
   characterStates (analyzeTypedText (str ''ab'') (str ''a'')) ! 1 = missed \<and>
   filter (\<lambda>m. position m = 1) (mistakes (analyzeTypedText (str ''ab'') (str ''a''))) = [] \<and>
   characterStates (analyzeTypedText (str ''a'') (str ''ab'')) ! 1 = extra \<and>
   filter (\<lambda>m. position m = 1) (mistakes (analyzeTypedText (str ''a'') (str ''ab''))) =
     [\<lparr>position = 1, expected = [], typed = str ''b'', type = insertion\<rparr>]"
  using analyze_classifies [of "str ''abc''" "str ''abd''", THEN conjunct2, rule_format, of 2]
        analyze_classifies [of "str ''abc''" "str ''abd''", THEN conjunct2, rule_format, of 0]
        analyze_classifies [of "str ''ab''" "str ''a''", THEN conjunct2, rule_format, of 1]
        analyze_classifies [of "str ''a''" "str ''ab''", THEN conjunct2, rule_format, of 1]
  by (simp add: str_def)

lemma analyze_step_counts:
  "correctCharacters (analyze_step target inp i a) + incorrectCharacters (analyze_step target inp i a)
     = correctCharacters a + incorrectCharacters a + (if i < length inp then 1 else 0)"
  by (simp add: analyze_step_def Let_def)

lemma analyze_step_incorrect:
  "incorrectCharacters (analyze_step target inp i a) =
     incorrectCharacters a + length (spec_mistakes target inp i)"
  by (simp add: analyze_step_def spec_mistakes_def char_or_empty_def Let_def)

lemma analyze_loop_counts:
  "correctCharacters (analyze_loop target inp i a) + incorrectCharacters (analyze_loop target inp i a)
     = correctCharacters a + incorrectCharacters a + (length inp - i)"
proof (induction target inp i a rule: analyze_loop.induct)
  case (1 target inp i a)
  show ?case
  proof (cases "i < max (length target) (length inp)")
    case True
    then show ?thesis
      using "1.IH" [OF True]
      by (subst (1 2) analyze_loop.simps) (auto simp: analyze_step_counts)
  next
    case False
    then show ?thesis by (subst (1 2) analyze_loop.simps) (auto simp: not_less)
  qed
qed

lemma analyze_loop_incorrect:
  "incorrectCharacters (analyze_loop target inp i a) =
     incorrectCharacters a +
     length (concat (map (spec_mistakes target inp) [i..<max (length target) (length inp)]))"
proof (induction target inp i a rule: analyze_loop.induct)
  case (1 target inp i a)
  show ?case
  proof (cases "i < max (length target) (length inp)")
    case True
    then show ?thesis
      using "1.IH" [OF True]
      by (subst analyze_loop.simps) (simp add: analyze_step_incorrect upt_conv_Cons)
  next
    case False
    then show ?thesis by (subst analyze_loop.simps) (auto simp: not_less)
  qed
qed

lemma mistakes_per_state:
  "length (concat (map (spec_mistakes target inp) xs)) =
     length (filter (\<lambda>s. s = incorrect \<or> s = extra) (map (spec_state target inp) xs))"
  by (induction xs) (auto simp: spec_mistakes_def spec_state_def)

text \<open>
  Claim C10. The counts of the analysis add up: correct plus incorrect characters is the
  total, the total is the length of the typed string, and there are as many mistake records
  as incorrect characters, one for each position whose state is \<open>incorrect\<close> or \<open>extra\<close>.
\<close>

theorem analyze_counts:
  "correctCharacters (analyzeTypedText target inp) + incorrectCharacters (analyzeTypedText target inp)
     = totalCharacters (analyzeTypedText target inp) \<and>
   totalCharacters (analyzeTypedText target inp) = length inp \<and>
   length (mistakes (analyzeTypedText target inp)) = incorrectCharacters (analyzeTypedText target inp) \<and>
   length (mistakes (analyzeTypedText target inp)) =
     length (filter (\<lambda>s. s = incorrect \<or> s = extra) (characterStates (analyzeTypedText target inp)))"
proof (intro conjI)
  show "totalCharacters (analyzeTypedText target inp) = length inp"
    by (simp add: analyzeTypedText_def analyze_loop_total)
  then show "correctCharacters (analyzeTypedText target inp) + incorrectCharacters (analyzeTypedText target inp)
     = totalCharacters (analyzeTypedText target inp)"
    by (simp add: analyzeTypedText_def analyze_loop_counts)
  show "length (mistakes (analyzeTypedText target inp)) = incorrectCharacters (analyzeTypedText target inp)"
    by (simp add: analyzeTypedText_def analyze_loop_incorrect analyze_loop_mistakes)
  show "length (mistakes (analyzeTypedText target inp)) =
     length (filter (\<lambda>s. s = incorrect \<or> s = extra) (characterStates (analyzeTypedText target inp)))"
    by (simp only: analyze_mistakes analyze_states mistakes_per_state)
qed

section \<open>Properties of the double arithmetic\<close>

lemma pow2_powi: "pow2 e = 2 powi e"
  by (simp add: pow2_def power_int_def power_inverse inverse_eq_divide power_one_over)

lemma pow2_pos: "0 < pow2 e"
  by (simp add: pow2_powi)

lemma pow2_add: "pow2 (a + b) = pow2 a * pow2 b"
  by (simp add: pow2_powi power_int_add)

lemma pow2_mono: "a \<le> b \<Longrightarrow> pow2 a \<le> pow2 b"
  by (simp add: pow2_powi power_int_increasing)


lemma pow2_less_imp: "pow2 a \<le> x \<Longrightarrow> x < pow2 b \<Longrightarrow> a < b"
  using pow2_mono [of b a] by (cases "a < b") auto

lemma exponent_lower:
  assumes "0 < a"
  shows "pow2 (exponent a) \<le> a"
proof (cases "1 \<le> a")
  case True
  let ?n = "\<lfloor>a\<rfloor>"
  have n: "0 < ?n" using True by simp
  from bitlen_bounds [OF n] have b: "2 ^ nat (bitlen ?n - 1) \<le> ?n" by simp
  have "1 \<le> bitlen ?n" using n bitlen_eq_zero_iff [of ?n] bitlen_nonneg [of ?n]
    by (cases "bitlen ?n = 0") auto
  then have "pow2 (bitlen ?n - 1) = of_int (2 ^ nat (bitlen ?n - 1))"
    by (simp add: pow2_def)
  also have "\<dots> \<le> of_int ?n" using b by (simp only: of_int_le_iff)
  also have "\<dots> \<le> a" by simp
  finally show ?thesis using True by (simp add: exponent_def)
next
  case False
  let ?k = "\<lceil>1 / a\<rceil> - 1"
  have "1 < 1 / a" using False assms by simp
  then have k: "0 < ?k" by (simp add: less_ceiling_iff)
  from bitlen_bounds [OF k] have "?k < 2 ^ nat (bitlen ?k)" by simp
  then have "\<lceil>1 / a\<rceil> \<le> 2 ^ nat (bitlen ?k)" by simp
  then have "1 / a \<le> of_int (2 ^ nat (bitlen ?k))" by (simp only: ceiling_le_iff)
  then have "1 / a \<le> 2 ^ nat (bitlen ?k)" by simp
  then have le: "1 / 2 ^ nat (bitlen ?k) \<le> a"
    using assms by (simp add: field_simps)
  have "1 \<le> bitlen ?k" using k bitlen_eq_zero_iff [of ?k] bitlen_nonneg [of ?k]
    by (cases "bitlen ?k = 0") auto
  then have "pow2 (- bitlen ?k) = 1 / 2 ^ nat (bitlen ?k)"
    by (simp add: pow2_def)
  with le show ?thesis using False by (simp add: exponent_def)
qed

lemma exponent_upper:
  assumes "0 < a"
  shows "a < pow2 (exponent a + 1)"
proof (cases "1 \<le> a")
  case True
  let ?n = "\<lfloor>a\<rfloor>"
  have n: "0 < ?n" using True by simp
  from bitlen_bounds [OF n] have "?n < 2 ^ nat (bitlen ?n)" by simp
  then have "?n + 1 \<le> 2 ^ nat (bitlen ?n)" by simp
  then have "of_int (?n + 1) \<le> (of_int (2 ^ nat (bitlen ?n)) :: rat)"
    by (simp only: of_int_le_iff)
  moreover have "a < of_int (?n + 1)" by linarith
  ultimately have "a < 2 ^ nat (bitlen ?n)" by simp
  moreover have "pow2 (bitlen ?n) = 2 ^ nat (bitlen ?n)"
    using bitlen_nonneg [of ?n] by (simp add: pow2_def)
  ultimately show ?thesis using True by (simp add: exponent_def)
next
  case False
  let ?k = "\<lceil>1 / a\<rceil> - 1"
  have "1 < 1 / a" using False assms by simp
  then have k: "0 < ?k" by (simp add: less_ceiling_iff)
  have b1: "1 \<le> bitlen ?k" using k bitlen_eq_zero_iff [of ?k] bitlen_nonneg [of ?k]
    by (cases "bitlen ?k = 0") auto
  from bitlen_bounds [OF k] have "2 ^ nat (bitlen ?k - 1) \<le> ?k" by simp
  then have "(of_int (2 ^ nat (bitlen ?k - 1)) :: rat) \<le> of_int ?k"
    by (simp only: of_int_le_iff)
  moreover have "of_int ?k < 1 / a" by linarith
  ultimately have "2 ^ nat (bitlen ?k - 1) < 1 / a" by simp
  then have lt: "a < 1 / 2 ^ nat (bitlen ?k - 1)"
    using assms by (simp add: field_simps)
  have "pow2 (1 - bitlen ?k) = 1 / 2 ^ nat (bitlen ?k - 1)"
    using b1 by (cases "bitlen ?k = 1") (simp_all add: pow2_def)
  with lt show ?thesis using False by (simp add: exponent_def)
qed

lemma round_half_even_bounds:
  "x - 1 / 2 \<le> of_int (round_half_even x) \<and> of_int (round_half_even x) \<le> x + 1 / 2"
  unfolding round_half_even_def Let_def by (auto; linarith)

lemma round_half_even_of_int: "round_half_even (of_int n) = n"
  by (simp add: round_half_even_def)

lemma round_half_even_nonneg: "0 \<le> x \<Longrightarrow> 0 \<le> round_half_even x"
  unfolding round_half_even_def Let_def by (auto; linarith)

lemma round_half_even_small: "0 \<le> x \<Longrightarrow> x < 1 / 2 \<Longrightarrow> round_half_even x = 0"
  unfolding round_half_even_def Let_def by (auto; linarith)

lemma round_half_even_pos: "1 / 2 < x \<Longrightarrow> 1 \<le> round_half_even x"
  using round_half_even_bounds [of x] by linarith

lemma to_double_zero: "to_double 0 = Fin 0"
  by (simp add: to_double_def)

lemma to_double_not_NaN: "to_double x \<noteq> NaN"
  by (simp add: to_double_def Let_def)

lemma pow2_Suc: "pow2 (e + 1) = 2 * pow2 e"
  by (simp add: pow2_add) (simp add: pow2_def)

lemma to_double_underflow:
  assumes "\<bar>x\<bar> < pow2 (- 1075)"
  shows "to_double x = Fin 0"
proof (cases "x = 0")
  case True
  then show ?thesis by (simp add: to_double_def)
next
  case False
  define a where "a = \<bar>x\<bar>"
  have a: "0 < a" using False by (simp add: a_def)
  have "exponent a < - 1075"
    using exponent_lower [OF a] assms by (intro pow2_less_imp [of _ a]) (simp_all add: a_def)
  then have m: "max (exponent a) (- 1022) - 52 = - 1074" by simp
  have "pow2 (- 1074) = 2 * pow2 (- 1075)" using pow2_Suc [of "- 1075"] by simp
  then have "a / pow2 (- 1074) < 1 / 2"
    using assms pow2_pos [of "- 1075"] by (simp add: a_def field_simps)
  moreover have "0 \<le> a / pow2 (- 1074)" using a pow2_pos [of "- 1074"] by simp
  ultimately have "round_half_even (a / pow2 (- 1074)) = 0"
    by (intro round_half_even_small)
  then show ?thesis
    using False m pow2_pos [of 1024]
    by (simp add: to_double_def Let_def a_def [symmetric])
qed

lemma quantum_le:
  assumes "0 < a"
  shows "pow2 (max (exponent a) (- 1022) - 52) \<le> a + 1"
proof (cases "- 1022 \<le> exponent a")
  case True
  then have "pow2 (max (exponent a) (- 1022) - 52) = pow2 (exponent a - 52)" by simp
  also have "\<dots> \<le> pow2 (exponent a)" by (intro pow2_mono) simp
  also have "\<dots> \<le> a" using assms by (rule exponent_lower)
  finally show ?thesis by simp
next
  case False
  then have "pow2 (max (exponent a) (- 1022) - 52) = pow2 (- 1074)" by simp
  also have "\<dots> \<le> pow2 0" by (intro pow2_mono) simp
  also have "\<dots> = 1" by (simp add: pow2_def)
  finally show ?thesis using assms by simp
qed

lemma to_double_nonzero:
  assumes "pow2 (- 1075) < \<bar>x\<bar>"
  shows "to_double x \<noteq> Fin 0"
proof -
  define a where "a = \<bar>x\<bar>"
  have a: "0 < a" using assms pow2_pos [of "- 1075"] by (simp add: a_def)
  then have x0: "x \<noteq> 0" by (auto simp: a_def)
  define q where "q = pow2 (max (exponent a) (- 1022) - 52)"
  have q: "0 < q" by (simp add: q_def pow2_pos)
  have half: "q / 2 < a"
  proof (cases "- 1022 \<le> exponent a")
    case True
    then have "q = pow2 (exponent a - 52)" by (simp add: q_def)
    also have "\<dots> \<le> pow2 (exponent a)" by (intro pow2_mono) simp
    also have "\<dots> \<le> a" using a by (rule exponent_lower)
    finally show ?thesis using q by simp
  next
    case False
    then have "q = pow2 (- 1074)" by (simp add: q_def)
    also have "\<dots> = 2 * pow2 (- 1075)" using pow2_Suc [of "- 1075"] by simp
    finally show ?thesis using assms by (simp add: a_def)
  qed
  then have "1 / 2 < a / q" using q by (simp add: field_simps)
  then have "1 \<le> round_half_even (a / q)" by (rule round_half_even_pos)
  then have "(1::rat) \<le> of_int (round_half_even (a / q))" by simp
  then have "q \<le> of_int (round_half_even (a / q)) * q"
    using q by (simp add: field_simps)
  with q have y: "0 < of_int (round_half_even (a / q)) * q" by linarith
  show ?thesis
    using x0 y
    by (auto simp: to_double_def Let_def a_def [symmetric] q_def [symmetric])
qed

lemma to_double_finite:
  assumes "\<bar>x\<bar> < pow2 1023"
  shows "\<exists>y. to_double x = Fin y \<and> \<bar>y\<bar> \<le> 2 * \<bar>x\<bar> + 1"
proof (cases "x = 0")
  case True
  then show ?thesis by (simp add: to_double_def)
next
  case False
  define a where "a = \<bar>x\<bar>"
  have a: "0 < a" using False by (simp add: a_def)
  define q where "q = pow2 (max (exponent a) (- 1022) - 52)"
  define y where "y = of_int (round_half_even (a / q)) * q"
  have q: "0 < q" by (simp add: q_def pow2_pos)
  have "exponent a < 1023"
    using exponent_lower [OF a] assms by (intro pow2_less_imp [of _ a]) (simp_all add: a_def)
  then have "max (exponent a) (- 1022) - 52 \<le> 1023" by simp
  then have q1: "q \<le> pow2 1023" unfolding q_def by (rule pow2_mono)
  have q2: "q \<le> a + 1" unfolding q_def using a by (rule quantum_le)
  have "0 \<le> a / q" using a q by simp
  then have "0 \<le> round_half_even (a / q)" by (rule round_half_even_nonneg)
  then have y0: "0 \<le> y" using q by (simp add: y_def)
  have "of_int (round_half_even (a / q)) \<le> a / q + 1 / 2"
    using round_half_even_bounds [of "a / q"] by simp
  then have "y \<le> (a / q + 1 / 2) * q"
    unfolding y_def using q by (intro mult_right_mono) simp_all
  also have "\<dots> = a + q / 2" using q by (simp add: field_simps)
  finally have yb: "y \<le> a + q / 2" .
  have "pow2 1024 = 2 * pow2 1023" using pow2_Suc [of 1023] by simp
  with yb q1 assms have fin: "y < pow2 1024" by (simp add: a_def)
  from yb q2 a have "y \<le> 2 * a + 1" by linarith
  with y0 fin False show ?thesis
    by (auto simp: to_double_def Let_def a_def [symmetric] q_def [symmetric] y_def [symmetric])
qed

lemma pow2_code [code]:
  "pow2 e =
     (if e = 0 then 1
      else if e < 0 then 1 / pow2 (- e)
      else if even e then (let h = pow2 (e div 2) in h * h)
      else 2 * pow2 (e - 1))"
proof -
  have neg: "e < 0 \<Longrightarrow> pow2 e = 1 / pow2 (- e)"
    by (simp add: pow2_def)
  have ev: "0 < e \<Longrightarrow> even e \<Longrightarrow> pow2 e = pow2 (e div 2) * pow2 (e div 2)"
    using pow2_add [of "e div 2" "e div 2"] by (auto elim!: evenE)
  have od: "0 < e \<Longrightarrow> pow2 e = 2 * pow2 (e - 1)"
    using pow2_Suc [of "e - 1"] by simp
  show ?thesis
    using neg ev od by (auto simp: Let_def pow2_def)
qed


lemma to_double_unfold:
  assumes "x \<noteq> 0"
    and "of_int (round_half_even (\<bar>x\<bar> / pow2 (max (exponent \<bar>x\<bar>) (- 1022) - 52))) *
           pow2 (max (exponent \<bar>x\<bar>) (- 1022) - 52) = y"
    and "\<not> pow2 1024 \<le> y"
  shows "to_double x = Fin (if 0 < x then y else - y)"
  by (simp only: to_double_def Let_def assms if_False)

lemma to_double_of_int:
  assumes "\<bar>m\<bar> < 2 ^ 53"
  shows "to_double (of_int m) = Fin (of_int m)"
proof (cases "m = 0")
  case True
  then show ?thesis by (simp add: to_double_def)
next
  case False
  define a :: rat where "a = \<bar>of_int m\<bar>"
  have am: "a = of_int \<bar>m\<bar>" by (simp add: a_def)
  have a: "0 < a" using False by (simp add: a_def)
  have "a < of_int (2 ^ 53)" unfolding am using assms by (simp only: of_int_less_iff)
  then have a53: "a < pow2 53" by (simp add: pow2_def)
  from exponent_lower [OF a] a53 have e: "exponent a < 53" by (rule pow2_less_imp)
  define j where "j = nat (52 - max (exponent a) (- 1022))"
  have k: "max (exponent a) (- 1022) - 52 = - int j" using e by (simp add: j_def)
  have q: "pow2 (max (exponent a) (- 1022) - 52) = 1 / 2 ^ j"
    unfolding k by (simp add: pow2_def)
  have "a / (1 / 2 ^ j) = of_int (\<bar>m\<bar> * 2 ^ j)" by (simp add: am)
  then have r: "round_half_even (a / (1 / 2 ^ j)) = \<bar>m\<bar> * 2 ^ j"
    by (simp only: round_half_even_of_int)
  have y: "of_int (round_half_even (a / pow2 (max (exponent a) (- 1022) - 52))) *
           pow2 (max (exponent a) (- 1022) - 52) = a"
    unfolding q r by (simp add: am)
  have "pow2 53 \<le> pow2 1024" by (rule pow2_mono) simp
  with a53 have no: "\<not> pow2 1024 \<le> a" by simp
  have x0: "(of_int m :: rat) \<noteq> 0" using False by simp
  have "to_double (of_int m) = Fin (if 0 < (of_int m :: rat) then a else - a)"
    using x0 y no unfolding a_def by (rule to_double_unfold)
  also have "(if 0 < (of_int m :: rat) then a else - a) = of_int m" by (simp add: a_def)
  finally show ?thesis .
qed

lemma to_double_of_nat: "n < 2 ^ 53 \<Longrightarrow> to_double (of_nat n) = Fin (of_nat n)"
  using to_double_of_int [of "int n"] by simp



lemma js_div_finite:
  "b \<noteq> 0 \<Longrightarrow> js_div (Fin a) (Fin b) = to_double (a / b)"
  by simp

lemma js_round_not_NaN: "x \<noteq> NaN \<Longrightarrow> js_round x \<noteq> NaN"
  by (cases x) simp_all

lemma minutes_nonzero:
  assumes "30 * pow2 (- 1074) < \<bar>t\<bar>"
  shows "to_double (t / 60) \<noteq> Fin 0"
proof (rule to_double_nonzero)
  have "pow2 (- 1074) = 2 * pow2 (- 1075)" using pow2_Suc [of "- 1075"] by simp
  with assms show "pow2 (- 1075) < \<bar>t / 60\<bar>" by simp
qed





section \<open>Properties of the metrics\<close>

text \<open>
  Claim C3, as stated, fails: at the smallest positive double, \<open>pow2 (- 1074)\<close>, the elapsed
  time is not zero, the divisor \<open>t / 60\<close> underflows to zero, and with no characters
  the quotient is \<open>0 / 0\<close>: the result is \<open>NaN\<close>, not \<open>0\<close>.
\<close>

theorem calculateWPM_underflow:
  "calculateWPM (Fin 0) (Fin (pow2 (- 1074))) = NaN"
proof -
  have "\<bar>pow2 (- 1074) / 60\<bar> < pow2 (- 1075)"
    using pow2_Suc [of "- 1075"] pow2_pos [of "- 1075"] by simp
  then have "to_double (pow2 (- 1074) / 60) = Fin 0" by (rule to_double_underflow)
  moreover have "pow2 (- 1074) \<noteq> 0" using pow2_pos [of "- 1074"] by simp
  ultimately show ?thesis
    by (simp add: calculateWPM_def Let_def to_double_zero)
qed


text \<open>
  Claim C3, amended. Words per minute is \<open>0\<close> at elapsed time \<open>0\<close>, whatever the character
  count. At any other finite time it is \<open>Math.round\<close> of the quotient of \<open>n / 5\<close> by
  \<open>t / 60\<close>, each of the three divisions rounded to a double. For every time of magnitude
  above \<open>30 * pow2 (- 1074)\<close> the divisor \<open>t / 60\<close> is not zero and zero characters give
  \<open>0\<close>; when moreover the count and the time are below \<open>pow2 1024\<close> in magnitude, as every
  finite double is, the result is not \<open>NaN\<close>.
\<close>

theorem calculateWPM_formula:
  "calculateWPM c (Fin 0) = Fin 0 \<and>
   (t \<noteq> 0 \<longrightarrow>
      calculateWPM (Fin n) (Fin t) =
        js_round (js_div (js_div (Fin n) (Fin 5)) (js_div (Fin t) (Fin 60)))) \<and>
   (30 * pow2 (- 1074) < \<bar>t\<bar> \<longrightarrow>
      js_div (Fin t) (Fin 60) \<noteq> Fin 0 \<and>
      calculateWPM (Fin 0) (Fin t) = Fin 0 \<and>
      (\<bar>n\<bar> < pow2 1024 \<and> \<bar>t\<bar> < pow2 1024 \<longrightarrow> calculateWPM (Fin n) (Fin t) \<noteq> NaN))"
proof (intro conjI impI)
  show "calculateWPM c (Fin 0) = Fin 0" by (simp add: calculateWPM_def)
next
  assume "t \<noteq> 0"
  then show "calculateWPM (Fin n) (Fin t) =
        js_round (js_div (js_div (Fin n) (Fin 5)) (js_div (Fin t) (Fin 60)))"
    by (simp add: calculateWPM_def Let_def)
next
  assume t: "30 * pow2 (- 1074) < \<bar>t\<bar>"
  then show "js_div (Fin t) (Fin 60) \<noteq> Fin 0"
    using minutes_nonzero [OF t] by simp
next
  assume t: "30 * pow2 (- 1074) < \<bar>t\<bar>"
  have t0: "t \<noteq> 0" using t pow2_pos [of "- 1074"] by auto
  have m: "to_double (t / 60) \<noteq> Fin 0" using t by (rule minutes_nonzero)
  have "js_div (Fin 0) (to_double (t / 60)) = Fin 0"
    using m to_double_not_NaN [of "t / 60"]
    by (cases "to_double (t / 60)") (simp_all add: to_double_zero)
  then show "calculateWPM (Fin 0) (Fin t) = Fin 0"
    using t0 by (simp add: calculateWPM_def Let_def to_double_zero)
next
  assume t: "30 * pow2 (- 1074) < \<bar>t\<bar>" and b: "\<bar>n\<bar> < pow2 1024 \<and> \<bar>t\<bar> < pow2 1024"
  have t0: "t \<noteq> 0" using t pow2_pos [of "- 1074"] by auto
  have p: "pow2 1024 = 2 * pow2 1023" using pow2_Suc [of 1023] by simp
  have "\<bar>n\<bar> / 5 < pow2 1023" using b p pow2_pos [of 1023] by linarith
  then have "\<bar>n / 5\<bar> < pow2 1023" by simp
  then obtain w where w: "to_double (n / 5) = Fin w" using to_double_finite by blast
  have "\<bar>t\<bar> / 60 < pow2 1023" using b p pow2_pos [of 1023] by linarith
  then have "\<bar>t / 60\<bar> < pow2 1023" by simp
  then obtain d where d: "to_double (t / 60) = Fin d" using to_double_finite by blast
  have d0: "d \<noteq> 0" using minutes_nonzero [OF t] d by simp
  have "js_div (Fin w) (Fin d) \<noteq> NaN" using d0 by (simp add: to_double_not_NaN)
  then have "js_round (js_div (Fin w) (Fin d)) \<noteq> NaN" by (rule js_round_not_NaN)
  then show "calculateWPM (Fin n) (Fin t) \<noteq> NaN"
    using t0 w d by (simp add: calculateWPM_def Let_def)
qed


theorem calculateWPM_formula_witness:
  "calculateWPM (Fin 41) (Fin 8) = Fin 61 \<and>
   js_div (Fin 8) (Fin 60) \<noteq> Fin 0 \<and>
   calculateWPM (Fin 0) (Fin 8) = Fin 0 \<and>
   calculateWPM (Fin 41) (Fin 8) \<noteq> NaN"
proof -
  have small: "pow2 (- 1074) \<le> pow2 (- 2)" by (rule pow2_mono) simp
  have h1: "(8::rat) \<noteq> 0" by simp
  have h2: "30 * pow2 (- 1074) < \<bar>8::rat\<bar>"
    using small by (simp add: pow2_def)
  have big: "pow2 4 \<le> pow2 1024" by (rule pow2_mono) simp
  have h3: "\<bar>41::rat\<bar> < pow2 1024 \<and> \<bar>8::rat\<bar> < pow2 1024"
  proof -
    have "pow2 6 \<le> pow2 1024" by (rule pow2_mono) simp
    then show ?thesis by (simp add: pow2_def)
  qed
  have e: "js_round (js_div (js_div (Fin 41) (Fin 5)) (js_div (Fin 8) (Fin 60))) = Fin 61"
    by code_simp
  from calculateWPM_formula [of NaN 8 41] h1 h2 h3 e show ?thesis by simp
qed






text \<open>
  Claim C5. \<open>calculateNetWPM\<close> has no branch for elapsed time \<open>0\<close>: with no mistakes the
  penalty is \<open>0 / 0\<close>, and the result is \<open>NaN\<close>, not a finite number.
\<close>

theorem calculateNetWPM_zero_time:
  "calculateNetWPM (Fin 0) (Fin 0) (Fin 0) = NaN \<and>
   \<not> is_finite (calculateNetWPM (Fin 0) (Fin 0) (Fin 0))"
  by (simp add: calculateNetWPM_def js_max_def is_finite_def to_double_zero)

section \<open>Properties of the end conditions\<close>

lemma substring_prefix: "substring s 0 (int k) = take k s"
  by (simp add: substring_def Let_def min_def max_def)

text \<open>
  Claim C2. The session should end exactly when the elapsed time has reached the limit, or
  the typed text is at least as long as the target and equals, after trimming, the trimmed
  prefix of the target of the typed length. The reason is \<open>time\<close> whenever the time
  condition holds, and \<open>completed\<close> exactly when only the text condition holds.
\<close>

theorem checkEndConditions_spec:
  "shouldEnd (checkEndConditions target inp limit elapsed) =
     (js_ge elapsed limit \<or>
      (length target \<le> length inp \<and> trim inp = trim (take (length inp) target))) \<and>
   (js_ge elapsed limit \<longrightarrow>
      reason (checkEndConditions target inp limit elapsed) = Some time) \<and>
   (reason (checkEndConditions target inp limit elapsed) = Some completed \<longleftrightarrow>
      \<not> js_ge elapsed limit \<and>
      length target \<le> length inp \<and> trim inp = trim (take (length inp) target))"
  by (simp add: checkEndConditions_def Let_def substring_prefix)

theorem checkEndConditions_spec_witness:
  "reason (checkEndConditions (str ''abc'') (str ''ab'') (Fin 15) (Fin 15)) = Some time \<and>
   reason (checkEndConditions (str ''ab '') (str ''ab '') (Fin 15) (Fin 15)) = Some time \<and>
   reason (checkEndConditions (str ''ab '') (str ''ab '') (Fin 15) (Fin 3)) = Some completed"
  using checkEndConditions_spec [of "str ''abc''" "str ''ab''" "Fin 15" "Fin 15"]
        checkEndConditions_spec [of "str ''ab ''" "str ''ab ''" "Fin 15" "Fin 15"]
        checkEndConditions_spec [of "str ''ab ''" "str ''ab ''" "Fin 15" "Fin 3"]
  by (simp add: str_def trim_def is_js_whitespace_def)

section \<open>Properties of the session component\<close>

lemma handleTestComplete_guard: "isComplete c \<Longrightarrow> handleTestComplete e c s = s"
  by (simp add: handleTestComplete_def)


text \<open>
  Claim C6. The guard of the completion handler reads the completion flag of the render
  that created the handler. After the handler of the current render has completed the
  session, a handler that an interval still holds from an earlier render, where the flag
  was not set, is not stopped by the guard: it saves a second result, plays the completion
  sound again and notifies the parent again.
\<close>

theorem handleTestComplete_stale_closure:
  "isComplete (handleTestComplete sample_env running_session running_session) \<and>
   length (storedResults (handleTestComplete sample_env running_session running_session)) = 1 \<and>
   length (storedResults (handleTestComplete sample_env stale_render
     (handleTestComplete sample_env running_session running_session))) = 2 \<and>
   soundsPlayed (handleTestComplete sample_env stale_render
     (handleTestComplete sample_env running_session running_session)) =
     [(testComplete, 4 / 10), (testComplete, 4 / 10)] \<and>
   length (completions (handleTestComplete sample_env stale_render
     (handleTestComplete sample_env running_session running_session))) = 2"
  by (simp add: handleTestComplete_def running_session_def stale_render_def sample_env_def
      saveTestResult_def Let_def playSound_def)

text \<open>
  Claim C7. In a running session an input longer than the target text leaves the typed
  buffer as it was, and every other field of the state as well, the sounds apart: the error
  cue is played when sound is on and the input is longer than the buffer. Whatever the
  input, a buffer no longer than the target stays no longer than the target.
\<close>

theorem handleInputChange_clamp:
  "(isActive s \<and> \<not> isPaused s \<and> \<not> isComplete s \<and> length (testText s) < length v \<longrightarrow>
      typedText (handleInputChange v s) = typedText s \<and>
      handleInputChange v s = s\<lparr>soundsPlayed := soundsPlayed (handleInputChange v s)\<rparr> \<and>
      soundsPlayed (handleInputChange v s) =
        soundsPlayed s @
          (if isSoundEnabled s \<and> length (typedText s) < length v then [(keyError, 3 / 10)] else [])) \<and>
   (length (typedText s) \<le> length (testText s) \<longrightarrow>
      length (typedText (handleInputChange v s)) \<le> length (testText (handleInputChange v s)))"
  by (auto simp: handleInputChange_def Let_def playSound_def js_index_def)

theorem handleInputChange_clamp_witness:
  "isActive running_session \<and> \<not> isPaused running_session \<and> \<not> isComplete running_session \<and>
   length (testText running_session) < length (str ''abcd'') \<and>
   typedText (handleInputChange (str ''abcd'') running_session) = str ''abd'' \<and>
   soundsPlayed (handleInputChange (str ''abcd'') running_session) = [(keyError, 3 / 10)] \<and>
   length (typedText (handleInputChange (str ''ab'') running_session)) \<le>
     length (testText (handleInputChange (str ''ab'') running_session))"
proof -
  have h: "isActive running_session \<and> \<not> isPaused running_session \<and>
      \<not> isComplete running_session \<and>
      length (testText running_session) < length (str ''abcd'')"
    by (simp add: running_session_def str_def)
  have b: "length (typedText running_session) \<le> length (testText running_session)"
    by (simp add: running_session_def str_def)
  from handleInputChange_clamp [of running_session "str ''abcd''"] h
  have "typedText (handleInputChange (str ''abcd'') running_session) = typedText running_session"
    and "soundsPlayed (handleInputChange (str ''abcd'') running_session) =
        soundsPlayed running_session @
          (if isSoundEnabled running_session \<and>
              length (typedText running_session) < length (str ''abcd'')
           then [(keyError, 3 / 10)] else [])"
    by simp_all
  moreover from handleInputChange_clamp [of running_session "str ''ab''"] b
  have "length (typedText (handleInputChange (str ''ab'') running_session)) \<le>
     length (testText (handleInputChange (str ''ab'') running_session))" by simp
  ultimately show ?thesis using h by (simp add: running_session_def str_def)
qed

section \<open>Properties of the text generator\<close>

lemma random_bounds: "0 \<le> random rnd k \<and> random rnd k < 1"
  by (simp add: random_def frac_lt_1)

lemma random_index_less: "0 < n \<Longrightarrow> random_index rnd k n < n"
proof -
  assume n: "0 < n"
  have "random rnd k * of_nat n < of_nat n"
    using random_bounds [of rnd k] n by simp
  then have "\<lfloor>random rnd k * of_nat n\<rfloor> < int n"
    by (simp add: floor_less_iff)
  moreover have "0 \<le> \<lfloor>random rnd k * of_nat n\<rfloor>"
    using random_bounds [of rnd k] by simp
  ultimately show ?thesis
    by (simp add: random_index_def nat_less_iff)
qed

lemma push_words_length:
  "length (fst (push_words cw rnd n ws k)) = length ws + n"
  by (induction n arbitrary: ws k) (simp_all add: Let_def)

lemma push_words_elements:
  "0 < length cw \<Longrightarrow> \<forall>x \<in> set ws. \<exists>w \<in> set cw. x = Some w \<Longrightarrow>
   \<forall>x \<in> set (fst (push_words cw rnd n ws k)). \<exists>w \<in> set cw. x = Some w"
proof (induction n arbitrary: ws k)
  case 0
  then show ?case by simp
next
  case (Suc n)
  have "random_index rnd k (length cw) < length cw"
    using Suc.prems(1) by (rule random_index_less)
  then have "\<forall>x \<in> set (ws @ [js_index cw (random_index rnd k (length cw))]). \<exists>w \<in> set cw. x = Some w"
    using Suc.prems(2) by (auto simp: js_index_def)
  from Suc.IH [OF Suc.prems(1) this] show ?case by (simp add: Let_def)
qed

lemma js_join_length: "length xs - 1 \<le> length (js_join xs)"
  by (induction xs rule: js_join.induct) auto

lemma js_join_nonempty:
  "xs \<noteq> [] \<Longrightarrow> \<forall>x \<in> set xs. join_element x \<noteq> [] \<Longrightarrow> js_join xs \<noteq> []"
  by (induction xs rule: js_join.induct) auto

lemma generateRandomWords_length:
  "wc - 1 \<le> length (fst (generateRandomWords cw rnd wc k))"
  using js_join_length [of "fst (push_words cw rnd wc [] k)"]
  by (simp add: generateRandomWords_def split_beta push_words_length)

lemma generateRandomWords_nonempty:
  assumes "cw \<noteq> []" "[] \<notin> set cw" "1 \<le> wc"
  shows "fst (generateRandomWords cw rnd wc k) \<noteq> []"
proof -
  let ?ws = "fst (push_words cw rnd wc [] k)"
  have "length ?ws = wc" by (simp add: push_words_length)
  with assms(3) have ne: "?ws \<noteq> []" by auto
  have "\<forall>x \<in> set ?ws. \<exists>w \<in> set cw. x = Some w"
    using assms(1) by (intro push_words_elements) simp_all
  with assms(2) have "\<forall>x \<in> set ?ws. join_element x \<noteq> []"
    by (auto simp: join_element_def)
  with ne have "js_join ?ws \<noteq> []" by (rule js_join_nonempty)
  then show ?thesis by (simp add: generateRandomWords_def split_beta)
qed

lemma generateRandomWords_zero: "fst (generateRandomWords cw rnd 0 k) = []"
  by (simp add: generateRandomWords_def)

lemma draw_unused_terminates:
  "random_index rnd j n \<notin> set used \<Longrightarrow> k \<le> j \<Longrightarrow>
   \<exists>i k'. draw_unused rnd n used k = Some (i, k') \<and> i \<notin> set used \<and> (\<exists>j'. i = random_index rnd j' n)"
proof (induction "j - k" arbitrary: k)
  case 0
  then have "k = j" by simp
  with 0 show ?case by (subst draw_unused.simps) (auto simp: Let_def)
next
  case (Suc d)
  show ?case
  proof (cases "random_index rnd k n \<in> set used")
    case True
    have "d = j - Suc k" "Suc k \<le> j" using Suc.hyps(2) by auto
    from Suc.hyps(1) [OF this(1) Suc.prems(1) this(2)] True
    show ?thesis by (subst draw_unused.simps) (simp add: Let_def)
  next
    case False
    then show ?thesis by (subst draw_unused.simps) (auto simp: Let_def)
  qed
qed

lemma unused_index_exists:
  assumes "set used \<subseteq> {..<n}" "length used < n"
  shows "\<exists>i<n. i \<notin> set used"
proof (rule ccontr)
  assume "\<not> (\<exists>i<n. i \<notin> set used)"
  then have "{..<n} \<subseteq> set used" by auto
  then have "card {..<n} \<le> card (set used)" by (intro card_mono) simp_all
  also have "\<dots> \<le> length used" by (rule card_length)
  finally show False using assms(2) by simp
qed

lemma sentences_loop_terminates:
  assumes fair: "fair_draws rnd (length ss)"
  shows "set used \<subseteq> {..<length ss} \<Longrightarrow>
         \<exists>tx' k'. sentences_loop ss rnd T tx used k = Some (Inr (tx', k'))"
proof (induction "length ss - length used" arbitrary: tx used k rule: less_induct)
  case less
  show ?case
  proof (cases "length tx < T \<and> length used < length ss")
    case False
    then show ?thesis by (subst sentences_loop.simps) auto
  next
    case True
    then have pos: "0 < length ss" by auto
    from unused_index_exists [OF less.prems] True
    obtain i where i: "i < length ss" "i \<notin> set used" by blast
    from fair i(1) obtain j where j: "k \<le> j" "random_index rnd j (length ss) = i"
      unfolding fair_draws_def by blast
    with i(2) have "random_index rnd j (length ss) \<notin> set used" by simp
    from draw_unused_terminates [OF this j(1)]
    obtain r k1 where d: "draw_unused rnd (length ss) used k = Some (r, k1)"
      and r: "r \<notin> set used" "\<exists>j'. r = random_index rnd j' (length ss)" by blast
    from r(2) pos have rl: "r < length ss" by (auto intro: random_index_less)
    then have idx: "js_index ss r = Some (ss ! r)" by (simp add: js_index_def)
    show ?thesis
    proof (cases "length tx + length (ss ! r) + 1 \<le> T + 50")
      case False
      with True d idx show ?thesis by (subst sentences_loop.simps) simp
    next
      case fits: True
      have add: "set_add r used = used @ [r]" using r(1) by (simp add: set_add_def)
      have "length ss - length (set_add r used) < length ss - length used"
        using True add by auto
      moreover have "set (set_add r used) \<subseteq> {..<length ss}"
        using less.prems rl add by simp
      ultimately obtain tx' k' where
        "sentences_loop ss rnd T (append_spaced tx (ss ! r)) (set_add r used) k1 = Some (Inr (tx', k'))"
        using less.hyps by blast
      with True d idx fits show ?thesis by (subst sentences_loop.simps) simp
    qed
  qed
qed

lemma draw_unused_range:
  assumes "draw_unused rnd n used k = Some r" "0 < n"
  shows "fst r < n"
proof -
  have "0 < n \<longrightarrow> fst r < n"
  proof (rule draw_unused.raw_induct
      [where P = "\<lambda>rnd n used k r. 0 < n \<longrightarrow> fst r < n", OF _ assms(1)], goal_cases)
    case (1 draw rnd n used k r)
    then show ?case
      by (auto simp: Let_def random_index_less split: if_splits)
  qed
  with assms(2) show ?thesis by simp
qed

lemma sentences_loop_no_error:
  assumes "sentences_loop ss rnd T tx used k = Some r"
  shows "r \<noteq> Inl e"
proof (rule sentences_loop.raw_induct
    [where P = "\<lambda>ss rnd T tx used k r. r \<noteq> Inl e", OF _ assms], goal_cases)
  case (1 loop ss rnd T tx used k r)
  show ?case
  proof (cases "length tx < T \<and> length used < length ss")
    case False
    with 1(2) show ?thesis by auto
  next
    case True
    then have pos: "0 < length ss" by auto
    from 1(2) True obtain i k1 where d: "draw_unused rnd (length ss) used k = Some (i, k1)"
      by (auto simp: bind_eq_Some_conv)
    from draw_unused_range [OF d pos] have "i < length ss" by simp
    then have idx: "js_index ss i = Some (ss ! i)" by (simp add: js_index_def)
    from 1(2) True d idx show ?thesis
      by (auto split: if_splits dest: 1(1))
  qed
qed

lemma indexOf_from_lower: "-1 \<le> i \<Longrightarrow> -1 \<le> indexOf_from s c i"
  by (induction s arbitrary: i) auto

lemma indexOf_lower: "-1 \<le> indexOf s c"
  by (simp add: indexOf_def indexOf_from_lower)

lemma substring_length:
  "0 \<le> b \<Longrightarrow> length (substring s 0 b) = min (nat b) (length s)"
  by (auto simp: substring_def Let_def min_def max_def)

lemma append_spaced_length: "length tx + length a \<le> length (append_spaced tx a)"
  by (simp add: append_spaced_def)

lemma mixed_loop_terminates:
  "\<exists>tx' k'. mixed_loop cw ss rnd T tx useWords k = Some (tx', k') \<and> T \<le> length tx'"
proof (induction "2 * (T - length tx) + (if useWords then 0 else 1)"
         arbitrary: tx useWords k rule: less_induct)
  case less
  show ?case
  proof (cases "length tx < T")
    case False
    then show ?thesis by (subst mixed_loop.simps) auto
  next
    case True
    show ?thesis
    proof (cases useWords)
      case uw: True
      define wc where "wc = nat (\<lfloor>random rnd k * 10\<rfloor> + 5)"
      define tx1 where "tx1 = append_spaced tx (fst (generateRandomWords cw rnd wc (Suc k)))"
      define k1 where "k1 = snd (generateRandomWords cw rnd wc (Suc k))"
      have "0 \<le> \<lfloor>random rnd k * 10\<rfloor>" using random_bounds [of rnd k] by simp
      then have "5 \<le> wc" unfolding wc_def by linarith
      with generateRandomWords_length [of wc cw rnd "Suc k"]
      have "4 \<le> length (fst (generateRandomWords cw rnd wc (Suc k)))" by simp
      with append_spaced_length [of tx "fst (generateRandomWords cw rnd wc (Suc k))"]
      have grow: "length tx + 4 \<le> length tx1" by (simp add: tx1_def)
      have step: "mixed_loop cw ss rnd T tx useWords k =
          (if T + 100 < length tx1 then Some (tx1, k1)
           else mixed_loop cw ss rnd T tx1 False k1)"
        using True uw
        by (subst mixed_loop.simps) (simp add: Let_def split_beta wc_def tx1_def k1_def)
      show ?thesis
      proof (cases "T + 100 < length tx1")
        case True
        with step show ?thesis by simp
      next
        case False
        have "2 * (T - length tx1) + (if False then 0 else 1)
                < 2 * (T - length tx) + (if useWords then 0 else 1)"
          using True uw grow by simp
        from less.hyps [OF this] False step show ?thesis by simp
      qed
    next
      case nw: False
      define tx1 where
        "tx1 = append_spaced tx (to_string (js_index ss (random_index rnd k (length ss))))"
      have grow: "length tx \<le> length tx1"
        using append_spaced_length [of tx "to_string (js_index ss (random_index rnd k (length ss)))"]
        by (simp add: tx1_def)
      have step: "mixed_loop cw ss rnd T tx useWords k =
          (if T + 100 < length tx1 then Some (tx1, Suc k)
           else mixed_loop cw ss rnd T tx1 True (Suc k))"
        using True nw
        by (subst mixed_loop.simps) (simp add: Let_def tx1_def)
      show ?thesis
      proof (cases "T + 100 < length tx1")
        case True
        with step show ?thesis by simp
      next
        case False
        have "2 * (T - length tx1) + (if True then 0 else 1)
                < 2 * (T - length tx) + (if useWords then 0 else 1)"
          using nw grow by simp
        from less.hyps [OF this] False step show ?thesis by simp
      qed
    qed
  qed
qed

lemma generateMixedText_nonempty:
  assumes "2 \<le> T"
  shows "\<exists>t k'. generateMixedText cw ss rnd T k = Some (t, k') \<and> t \<noteq> []"
proof -
  obtain tx' k' where l: "mixed_loop cw ss rnd T [] (1 / 2 < random rnd k) (Suc k) = Some (tx', k')"
    and len: "T \<le> length tx'"
    using mixed_loop_terminates by blast
  let ?e = "int T + indexOf (substring_from tx' (int T)) SPACE"
  have e: "1 \<le> ?e" using indexOf_lower [of "substring_from tx' (int T)" SPACE] assms by simp
  then have "length (substring tx' 0 ?e) = min (nat ?e) (length tx')"
    by (intro substring_length) simp
  with e len assms have "substring tx' 0 ?e \<noteq> []" by auto
  with l show ?thesis by (simp add: generateMixedText_def Let_def)
qed


lemma alternating_fair: "fair_draws alternating_draws 2"
  unfolding fair_draws_def
proof (intro allI impI)
  fix k i :: nat
  assume "i < 2"
  then consider "i = 0" | "i = 1" by linarith
  then show "\<exists>j\<ge>k. random_index alternating_draws j 2 = i"
  proof cases
    case 1
    have "random_index alternating_draws (2 * k) 2 = 0"
      by (simp add: random_index_def random_def alternating_draws_def)
    with 1 show ?thesis by (intro exI [of _ "2 * k"]) simp
  next
    case 2
    have "frac (1 / 2 :: rat) = 1 / 2" by (simp add: frac_def floor_eq_iff)
    then have "random_index alternating_draws (2 * k + 1) 2 = 1"
      by (simp add: random_index_def random_def alternating_draws_def)
    with 2 show ?thesis by (intro exI [of _ "2 * k + 1"]) simp
  qed
qed

lemma zero_index: "random_index zero_draws k n = 0"
  by (simp add: random_index_def random_def zero_draws_def)

lemma indexOf_empty: "indexOf [] c = -1"
  by (simp add: indexOf_def)

lemma generateMixedText_cuts_last_character:
  assumes "ss \<noteq> []" "ss ! 0 \<noteq> []"
  shows "generateMixedText cw ss zero_draws (length (ss ! 0)) 0 = Some (butlast (ss ! 0), 2)"
proof -
  let ?s = "ss ! 0"
  let ?T = "length ?s"
  have idx: "js_index ss 0 = Some ?s" using assms(1) by (simp add: js_index_def)
  have inner: "mixed_loop cw ss zero_draws ?T ?s True 2 = Some (?s, 2)"
    by (subst mixed_loop.simps) simp
  have "mixed_loop cw ss zero_draws ?T [] False 1 = Some (?s, 2)"
    using assms(2) idx inner
    by (subst mixed_loop.simps)
       (simp add: zero_index to_string_def append_spaced_def Let_def numeral_2_eq_2)
  moreover have "substring_from ?s (int ?T) = []"
    by (simp add: substring_from_def substring_def Let_def)
  moreover have "substring ?s 0 (int ?T - 1) = butlast ?s"
    using assms(2) by (simp add: substring_def Let_def butlast_conv_take min_def max_def nat_diff_distrib)
  ultimately show ?thesis
    by (simp add: generateMixedText_def random_def zero_draws_def indexOf_empty)
qed

text \<open>
  Claim C8. With the sentence \<open>the cat sat\<close> drawn first and target length \<open>10\<close>, the
  accumulated text has no space at or after position \<open>10\<close>, \<open>indexOf\<close> answers \<open>-1\<close>, and
  mixed-mode generation returns \<open>the cat s\<close>: the last word is split.
\<close>

theorem generateMixedText_splits_word:
  "mixed_loop sample_words sample_sentences zero_draws 10 [] False 1 =
     Some (str ''the cat sat'', 2) \<and>
   generateMixedText sample_words sample_sentences zero_draws 10 0 =
     Some (str ''the cat s'', 2)"
  by code_simp


text \<open>
  Claim C9, as stated, fails: in words mode with length \<open>0\<close> the generated text is empty.
\<close>

theorem generateText_words_zero_empty:
  "generateText sample_words sample_sentences zero_draws Words 0 = Some (Inr (Some []))"
  by (simp add: generateText_def generateRandomWords_def)


lemma generateText_no_error: "generateText cw ss rnd mode n \<noteq> Some (Inl e)"
proof (cases mode)
  case Sentences
  show ?thesis
  proof
    assume a: "generateText cw ss rnd mode n = Some (Inl e)"
    then obtain r where r: "sentences_loop ss rnd n [] [] 0 = Some r"
      using Sentences
      by (auto simp: generateText_def generateRandomSentences_def split: option.splits)
    with a Sentences have "r = Inl e"
      by (auto simp: generateText_def generateRandomSentences_def split: sum.splits prod.splits)
    with sentences_loop_no_error [OF r, of e] show False by simp
  qed
qed (auto simp: generateText_def)


lemma push_words_draws:
  "fst (push_words cw rnd n ws k) =
     ws @ map (\<lambda>i. js_index cw (random_index rnd (k + i) (length cw))) [0..<n]"
proof (induction n arbitrary: ws k)
  case 0
  then show ?case by simp
next
  case (Suc n)
  have "[0..<Suc n] = 0 # map Suc [0..<n]"
    by (simp add: upt_conv_Cons map_Suc_upt del: upt_Suc)
  then show ?case
    by (simp add: Suc.IH Let_def comp_def del: upt_Suc)
qed

lemma generateRandomWords_draws:
  "fst (generateRandomWords cw rnd n 0) = js_join (drawn_words cw rnd n)"
  by (simp add: generateRandomWords_def split_beta push_words_draws drawn_words_def)

lemma drawn_words_in_list:
  assumes "cw \<noteq> []"
  shows "set (drawn_words cw rnd n) \<subseteq> Some ` set cw"
proof -
  have "random_index rnd i (length cw) < length cw" for i
    using assms by (intro random_index_less) simp
  then show ?thesis
    by (auto simp: drawn_words_def js_index_def)
qed


text \<open>
  Claim C9, amended. No mode raises an exception. Words mode returns the \<open>n\<close> drawn words
  joined by single spaces, each of them a word of the list when the list is not empty:
  the empty string for length \<open>0\<close>, and a non-empty string for a length of at least \<open>1\<close>
  when the word list is non-empty and has no empty word. Sentences mode, when the sentence
  list is non-empty, its first sentence is non-empty and every sentence index keeps
  turning up among the draws, returns a non-empty string: the accumulated text, or the
  first sentence when nothing was accumulated. Mixed mode returns a non-empty string for
  every length of at least \<open>2\<close>.
\<close>

theorem generateText_nonempty:
  "generateText cw ss rnd mode n \<noteq> Some (Inl e) \<and>
   generateText cw ss rnd Words n = Some (Inr (Some (js_join (drawn_words cw rnd n)))) \<and>
   length (drawn_words cw rnd n) = n \<and>
   (cw \<noteq> [] \<longrightarrow> set (drawn_words cw rnd n) \<subseteq> Some ` set cw) \<and>
   (n = 0 \<longrightarrow> js_join (drawn_words cw rnd n) = []) \<and>
   (1 \<le> n \<and> cw \<noteq> [] \<and> [] \<notin> set cw \<longrightarrow> js_join (drawn_words cw rnd n) \<noteq> []) \<and>
   (ss \<noteq> [] \<and> ss ! 0 \<noteq> [] \<and> fair_draws rnd (length ss) \<longrightarrow>
      (\<exists>acc k' t. sentences_loop ss rnd n [] [] 0 = Some (Inr (acc, k')) \<and>
         generateText cw ss rnd Sentences n = Some (Inr (Some t)) \<and>
         t = (if acc \<noteq> [] then acc else ss ! 0) \<and> t \<noteq> [])) \<and>
   (2 \<le> n \<longrightarrow> (\<exists>t. generateText cw ss rnd Mixed n = Some (Inr (Some t)) \<and> t \<noteq> []))"
proof (intro conjI impI)
  show "generateText cw ss rnd mode n \<noteq> Some (Inl e)"
    by (rule generateText_no_error)
next
  show "generateText cw ss rnd Words n = Some (Inr (Some (js_join (drawn_words cw rnd n))))"
    by (simp add: generateText_def generateRandomWords_draws)
next
  show "length (drawn_words cw rnd n) = n"
    by (simp add: drawn_words_def)
next
  assume "cw \<noteq> []"
  then show "set (drawn_words cw rnd n) \<subseteq> Some ` set cw"
    by (rule drawn_words_in_list)
next
  assume "n = 0"
  then show "js_join (drawn_words cw rnd n) = []"
    by (simp add: drawn_words_def)
next
  assume "1 \<le> n \<and> cw \<noteq> [] \<and> [] \<notin> set cw"
  then have "fst (generateRandomWords cw rnd n 0) \<noteq> []"
    by (intro generateRandomWords_nonempty) simp_all
  then show "js_join (drawn_words cw rnd n) \<noteq> []"
    by (simp add: generateRandomWords_draws)
next
  assume h: "ss \<noteq> [] \<and> ss ! 0 \<noteq> [] \<and> fair_draws rnd (length ss)"
  then have "fair_draws rnd (length ss)" by simp
  from sentences_loop_terminates [OF this, of "[]" n "[]" 0]
  obtain acc k' where l: "sentences_loop ss rnd n [] [] 0 = Some (Inr (acc, k'))" by auto
  from h have "js_index ss 0 = Some (ss ! 0)" by (simp add: js_index_def)
  with l h show "\<exists>acc k' t. sentences_loop ss rnd n [] [] 0 = Some (Inr (acc, k')) \<and>
         generateText cw ss rnd Sentences n = Some (Inr (Some t)) \<and>
         t = (if acc \<noteq> [] then acc else ss ! 0) \<and> t \<noteq> []"
    by (simp add: generateText_def generateRandomSentences_def)
next
  assume "2 \<le> n"
  from generateMixedText_nonempty [OF this, of cw ss rnd 0]
  show "\<exists>t. generateText cw ss rnd Mixed n = Some (Inr (Some t)) \<and> t \<noteq> []"
    by (auto simp: generateText_def)
qed

theorem generateText_nonempty_witness:
  "(two_words \<noteq> [] \<and> [] \<notin> set two_words \<and> sample_sentences \<noteq> [] \<and>
    sample_sentences ! 0 \<noteq> [] \<and> fair_draws alternating_draws (length sample_sentences)) \<and>
   generateText two_words sample_sentences alternating_draws Words 3 =
     Some (Inr (Some (str ''go up go''))) \<and>
   (\<exists>t. generateText two_words sample_sentences alternating_draws Sentences 15 =
      Some (Inr (Some t)) \<and> t \<noteq> []) \<and>
   (\<exists>t. generateText two_words sample_sentences alternating_draws Mixed 12 =
      Some (Inr (Some t)) \<and> t \<noteq> [])"
proof -
  have len: "length sample_sentences = 2"
    by (simp add: sample_sentences_def)
  have fair: "fair_draws alternating_draws (length sample_sentences)"
    by (simp only: len alternating_fair)
  have h: "two_words \<noteq> [] \<and> [] \<notin> set two_words \<and> sample_sentences \<noteq> [] \<and>
    sample_sentences ! 0 \<noteq> [] \<and> fair_draws alternating_draws (length sample_sentences)"
    using fair by (simp add: two_words_def sample_sentences_def str_def)
  have w: "js_join (drawn_words two_words alternating_draws 3) = str ''go up go''"
    by code_simp
  show ?thesis
    using h w
      generateText_nonempty [of two_words sample_sentences alternating_draws Words 3 TypeError]
      generateText_nonempty [of two_words sample_sentences alternating_draws Sentences 15 TypeError]
      generateText_nonempty [of two_words sample_sentences alternating_draws Mixed 12 TypeError]
    by auto
qed

end
